theory Spec2Isabelle
  imports Main "HOL-Library.Word"
begin

unbundle bit_operations_syntax

section \<open>Bit reading request/response messages (pymodbus/bit_read_message.py)\<close>

text \<open>
  The module defines the request and response messages of Modbus function codes 1
  (read coils) and 2 (read discrete inputs). Python 2 byte strings are lists of bytes,
  Python integers are \<^typ>\<open>int\<close>, and every exception the code can raise is a value of
  \<open>py_error\<close>, returned on the left of a sum.
\<close>

subsection \<open>Bytes, errors and the struct module\<close>

type_synonym byte = "8 word"

datatype py_error =
    struct_error  \<comment> \<open>\<open>struct.error\<close>: wrong buffer length or field out of range\<close>
  | ValueError    \<comment> \<open>\<open>chr(n)\<close> with \<open>n\<close> outside \<open>range(256)\<close>\<close>
  | IndexError    \<comment> \<open>string index out of range\<close>

text \<open>
  \<open>struct.pack('>HH', a, c)\<close>: two unsigned 16-bit fields, big-endian. A field outside
  \<open>0..65535\<close> raises \<open>struct.error\<close>.
\<close>

definition pack_H :: "int \<Rightarrow> py_error + byte list" where
  "pack_H v =
     (if 0 \<le> v \<and> v \<le> 65535
      then Inr [word_of_int (v div 256), word_of_int (v mod 256)]
      else Inl struct_error)"

definition struct_pack_HH :: "int \<Rightarrow> int \<Rightarrow> py_error + byte list" where
  "struct_pack_HH a c =
     (case pack_H a of
        Inl e \<Rightarrow> Inl e
      | Inr hi \<Rightarrow> (case pack_H c of Inl e \<Rightarrow> Inl e | Inr lo \<Rightarrow> Inr (hi @ lo)))"

text \<open>
  \<open>struct.unpack('>HH', data)\<close>: raises \<open>struct.error\<close> unless the buffer holds exactly
  four bytes.
\<close>

fun struct_unpack_HH :: "byte list \<Rightarrow> py_error + int \<times> int" where
  "struct_unpack_HH [b0, b1, b2, b3] =
     Inr (uint b0 * 256 + uint b1, uint b2 * 256 + uint b3)"
| "struct_unpack_HH data = Inl struct_error"

subsection \<open>Collaborators of pymodbus.pdu and pymodbus.utilities\<close>

text \<open>
  Modelled from the spec: the exception codes of \<open>pymodbus.pdu.ModbusExceptions\<close> that this
  module names (IllegalValue, IllegalAddress); the class is not part of the sources.
\<close>

datatype ModbusExceptions = IllegalAddress | IllegalValue

text \<open>
  Modelled from the spec: \<open>ModbusRequest.doException\<close> of \<open>pymodbus.pdu\<close>, which is not
  part of the sources. It builds an exception response carrying
  \<open>function_code | 0x80\<close> and the exception code.
\<close>

datatype ExceptionResponse = ExceptionResponse int ModbusExceptions

definition doException :: "int \<Rightarrow> ModbusExceptions \<Rightarrow> ExceptionResponse" where
  "doException fc exception = ExceptionResponse (fc OR 0x80) exception"

text \<open>
  Modelled from the spec: \<open>packBitsToString\<close> of \<open>pymodbus.utilities\<close>, which is not part of
  the sources. The bits are cut into groups of eight; each group becomes one byte, its
  first bit the least significant one, and a short last group is padded with zeros at the
  high end. The number of bytes is \<open>ceil(len(bits) / 8)\<close>.
\<close>

fun packByte :: "bool list \<Rightarrow> byte" where
  "packByte [] = 0"
| "packByte (b # bs) = of_bool b OR push_bit 1 (packByte bs)"

definition packBitsToString :: "bool list \<Rightarrow> byte list" where
  "packBitsToString bits =
     map (\<lambda>j. packByte (take 8 (drop (8 * j) bits))) [0 ..< (length bits + 7) div 8]"

text \<open>
  Modelled from the spec: \<open>unpackBitsFromString\<close> of \<open>pymodbus.utilities\<close>, which is not part
  of the sources. It reads the leading length byte and unpacks exactly that many bytes,
  least significant bit first, eight bits per byte; padding bits stay in the result. The
  caller takes component 0 of what it returns, so the result is a pair, here of the bits
  and the byte count. Reading past the end of the string is Python's IndexError.
\<close>

definition unpackByte :: "byte \<Rightarrow> bool list" where
  "unpackByte v = map (bit v) [0 ..< 8]"

definition unpackBitsFromString :: "byte list \<Rightarrow> py_error + bool list \<times> nat" where
  "unpackBitsFromString string =
     (case string of
        [] \<Rightarrow> Inl IndexError
      | n # rest \<Rightarrow>
          if length rest < unat n then Inl IndexError
          else Inr (concat (map unpackByte (take (unat n) rest)), unat n))"

subsection \<open>Requests\<close>

text \<open>
  \<open>ReadCoilsRequest\<close> and \<open>ReadDiscreteInputsRequest\<close> are the two subclasses of
  \<open>ReadBitsRequestBase\<close>; an object holds \<open>address\<close> and \<open>count\<close>, and its class fixes
  \<open>function_code\<close>. The two fields are Python integers of any size. The constructors'
  default \<open>None\<close> is not a value of the model: a request is given both fields, by its
  constructor or by \<open>decode\<close>, before it is encoded or executed.
\<close>

datatype request =
    ReadCoilsRequest (address: int) (count: int)
  | ReadDiscreteInputsRequest (address: int) (count: int)

fun function_code :: "request \<Rightarrow> int" where
  "function_code (ReadCoilsRequest a c) = 1"
| "function_code (ReadDiscreteInputsRequest a c) = 2"

definition ReadBitsRequestBase_encode :: "request \<Rightarrow> py_error + byte list" where
  "ReadBitsRequestBase_encode self = struct_pack_HH (address self) (count self)"

text \<open>\<open>decode\<close> assigns both fields of the object; the object's class stays.\<close>

fun set_fields :: "request \<Rightarrow> int \<Rightarrow> int \<Rightarrow> request" where
  "set_fields (ReadCoilsRequest _ _) a c = ReadCoilsRequest a c"
| "set_fields (ReadDiscreteInputsRequest _ _) a c = ReadDiscreteInputsRequest a c"

definition ReadBitsRequestBase_decode :: "request \<Rightarrow> byte list \<Rightarrow> py_error + request" where
  "ReadBitsRequestBase_decode self data =
     (case struct_unpack_HH data of
        Inl e \<Rightarrow> Inl e
      | Inr (a, c) \<Rightarrow> Inr (set_fields self a c))"

subsection \<open>Responses\<close>

datatype response =
    ReadCoilsResponse (bits: "bool list")
  | ReadDiscreteInputsResponse (bits: "bool list")

fun response_function_code :: "response \<Rightarrow> int" where
  "response_function_code (ReadCoilsResponse _) = 1"
| "response_function_code (ReadDiscreteInputsResponse _) = 2"

text \<open>\<open>ReadBitsResponseBase.__init__\<close>: \<open>None\<close> becomes the empty list.\<close>

definition ReadBitsResponseBase_init :: "bool list option \<Rightarrow> bool list" where
  "ReadBitsResponseBase_init values =
     (if values \<noteq> None then the values else [])"

definition ReadCoilsResponse_init :: "bool list option \<Rightarrow> response" where
  "ReadCoilsResponse_init values = ReadCoilsResponse (ReadBitsResponseBase_init values)"

definition ReadDiscreteInputsResponse_init :: "bool list option \<Rightarrow> response" where
  "ReadDiscreteInputsResponse_init values =
     ReadDiscreteInputsResponse (ReadBitsResponseBase_init values)"

text \<open>\<open>chr(n)\<close> raises ValueError unless \<open>0 \<le> n < 256\<close>.\<close>

definition chr :: "nat \<Rightarrow> py_error + byte" where
  "chr n = (if n < 256 then Inr (of_nat n) else Inl ValueError)"

definition ReadBitsResponseBase_encode :: "response \<Rightarrow> py_error + byte list" where
  "ReadBitsResponseBase_encode self =
     (let ret = packBitsToString (bits self)
      in case chr (length ret) of Inl e \<Rightarrow> Inl e | Inr n \<Rightarrow> Inr (n # ret))"

fun set_bits :: "response \<Rightarrow> bool list \<Rightarrow> response" where
  "set_bits (ReadCoilsResponse _) v = ReadCoilsResponse v"
| "set_bits (ReadDiscreteInputsResponse _) v = ReadDiscreteInputsResponse v"

definition ReadBitsResponseBase_decode :: "response \<Rightarrow> byte list \<Rightarrow> py_error + response" where
  "ReadBitsResponseBase_decode self data =
     (case unpackBitsFromString data of
        Inl e \<Rightarrow> Inl e
      | Inr r \<Rightarrow> Inr (set_bits self (fst r)))"

subsection \<open>Executing a request against a data store\<close>

text \<open>
  The context is the external data store. Its two methods may read and change the store,
  so each takes the store and returns its result with the store after the call.
  \<open>getValues\<close> may return any object; \<open>None\<close> is the one \<open>__init__\<close> treats apart.
  \<open>execute\<close> returns the exception response (left) or the response (right), the calls it
  made into the context, in order, and the store after them.
\<close>

record 's DataStoreContext =
  validate :: "int \<Rightarrow> int \<Rightarrow> int \<Rightarrow> 's \<Rightarrow> bool \<times> 's"
  getValues :: "int \<Rightarrow> int \<Rightarrow> int \<Rightarrow> 's \<Rightarrow> bool list option \<times> 's"

datatype call = Call_validate int int int | Call_getValues int int int

type_synonym 's outcome = "(ExceptionResponse + response) \<times> call list \<times> 's"

fun execute :: "request \<Rightarrow> 's DataStoreContext \<Rightarrow> 's \<Rightarrow> 's outcome" where
  "execute (ReadCoilsRequest a c) ctx s =
     (if \<not> (1 \<le> c \<and> c \<le> 0x7d0) then (Inl (doException 1 IllegalValue), [], s)
      else case validate ctx 1 a c s of (ok, s1) \<Rightarrow>
        if \<not> ok then (Inl (doException 1 IllegalAddress), [Call_validate 1 a c], s1)
        else case getValues ctx 1 a c s1 of (values, s2) \<Rightarrow>
          (Inr (ReadCoilsResponse_init values),
           [Call_validate 1 a c, Call_getValues 1 a c], s2))"
| "execute (ReadDiscreteInputsRequest a c) ctx s =
     (if \<not> (1 \<le> c \<and> c \<le> 0x7d0) then (Inl (doException 2 IllegalValue), [], s)
      else case validate ctx 2 a c s of (ok, s1) \<Rightarrow>
        if \<not> ok then (Inl (doException 2 IllegalAddress), [Call_validate 2 a c], s1)
        else case getValues ctx 2 a c s1 of (values, s2) \<Rightarrow>
          (Inr (ReadDiscreteInputsResponse_init values),
           [Call_validate 2 a c, Call_getValues 2 a c], s2))"

subsection \<open>Example data stores\<close>

text \<open>
  A store of coil values held in a list: a range is valid when it lies inside the list,
  and \<open>getValues\<close> returns the values of the range. Neither call changes the store.
\<close>

definition coil_store :: "bool list DataStoreContext" where
  "coil_store =
     \<lparr>validate = (\<lambda>fc a c s. (0 \<le> a \<and> a + c \<le> int (length s), s)),
      getValues = (\<lambda>fc a c s. (Some (take (nat c) (drop (nat a) s)), s))\<rparr>"

definition coils_10_to_14 :: "bool list" where
  "coils_10_to_14 = replicate 10 False @ [True, False, True, True, False]"

text \<open>
  A store that rejects every range and counts the calls made into it: \<open>validate\<close> adds 1
  to the counter, \<open>getValues\<close> would add 10.
\<close>

definition rejecting :: "nat DataStoreContext" where
  "rejecting = \<lparr>validate = (\<lambda>fc a c s. (False, Suc s)),
                getValues = (\<lambda>fc a c s. (Some [True], s + 10))\<rparr>"

text \<open>A store in which every point has the same value, the state of the store.\<close>

definition uniform_store :: "bool DataStoreContext" where
  "uniform_store =
     \<lparr>validate = (\<lambda>fc a c s. (True, s)),
      getValues = (\<lambda>fc a c s. (Some (replicate (nat c) s), s))\<rparr>"

section \<open>Properties\<close>

subsection \<open>Bit packing\<close>

lemma bit_packByte: "bit (packByte bs) k = (k < 8 \<and> k < length bs \<and> bs ! k)"
proof (induction bs arbitrary: k)
  case Nil
  then show ?case by simp
next
  case (Cons b bs)
  show ?case
  proof (cases k)
    case 0
    then show ?thesis by (simp add: bit_0 even_or_iff)
  next
    case (Suc j)
    have "bit (packByte (b # bs)) (Suc j) = (Suc j < 8 \<and> bit (packByte bs) j)"
      by (simp only: packByte.simps bit_or_iff bit_push_bit_iff bit_of_bool_iff)
         auto
    then show ?thesis using Suc Cons.IH [of j] by auto
  qed
qed

lemma length_packBitsToString: "length (packBitsToString bs) = (length bs + 7) div 8"
  by (simp add: packBitsToString_def)

lemma nth_packBitsToString:
  "j < (length bs + 7) div 8 \<Longrightarrow>
   packBitsToString bs ! j = packByte (take 8 (drop (8 * j) bs))"
  by (simp add: packBitsToString_def)

lemma bit_packByte_chunk:
  assumes "k < 8"
  shows "bit (packByte (take 8 (drop (8 * j) bs))) k =
         (8 * j + k < length bs \<and> bs ! (8 * j + k))"
proof (cases "8 * j + k < length bs")
  case True
  then have "k < length bs - 8 * j" by simp
  with assms True show ?thesis by (simp add: bit_packByte)
next
  case False
  then have "\<not> k < length bs - 8 * j" by simp
  with False show ?thesis by (simp add: bit_packByte)
qed

lemma bit_packBitsToString:
  assumes "p < 8 * ((length bs + 7) div 8)"
  shows "bit (packBitsToString bs ! (p div 8)) (p mod 8) = (p < length bs \<and> bs ! p)"
proof -
  have j: "p div 8 < (length bs + 7) div 8" using assms by simp
  have k: "p mod 8 < 8" by simp
  have "bit (packBitsToString bs ! (p div 8)) (p mod 8) =
        (8 * (p div 8) + p mod 8 < length bs \<and> bs ! (8 * (p div 8) + p mod 8))"
    unfolding nth_packBitsToString [OF j] by (rule bit_packByte_chunk [OF k])
  then show ?thesis by simp
qed

lemma length_unpackByte: "length (unpackByte v) = 8"
  by (simp add: unpackByte_def)

lemma nth_concat_unpack:
  "p < 8 * length vs \<Longrightarrow>
   concat (map unpackByte vs) ! p = bit (vs ! (p div 8)) (p mod 8)"
proof (induction vs arbitrary: p)
  case Nil
  then show ?case by simp
next
  case (Cons v vs)
  show ?case
  proof (cases "p < 8")
    case True
    then show ?thesis by (simp add: nth_append length_unpackByte) (simp add: unpackByte_def)
  next
    case False
    then have q: "p - 8 < 8 * length vs" using Cons.prems by simp
    have d: "p div 8 = Suc ((p - 8) div 8)" "p mod 8 = (p - 8) mod 8"
      using False by (simp_all add: div_if mod_if)
    show ?thesis using False Cons.IH [OF q]
      by (simp add: nth_append length_unpackByte d)
  qed
qed

lemma length_concat_unpack: "length (concat (map unpackByte vs)) = 8 * length vs"
  by (induction vs) (simp_all add: length_unpackByte)

lemma unpack_pack:
  "concat (map unpackByte (packBitsToString bs)) =
   bs @ replicate (8 * ((length bs + 7) div 8) - length bs) False"
proof (rule nth_equalityI)
  show "length (concat (map unpackByte (packBitsToString bs))) =
        length (bs @ replicate (8 * ((length bs + 7) div 8) - length bs) False)"
    by (simp add: length_concat_unpack length_packBitsToString)
next
  fix p
  assume "p < length (concat (map unpackByte (packBitsToString bs)))"
  then have p: "p < 8 * ((length bs + 7) div 8)"
    by (simp add: length_concat_unpack length_packBitsToString)
  then have "concat (map unpackByte (packBitsToString bs)) ! p =
             (p < length bs \<and> bs ! p)"
    by (simp add: nth_concat_unpack length_packBitsToString bit_packBitsToString)
  also have "\<dots> = (bs @ replicate (8 * ((length bs + 7) div 8) - length bs) False) ! p"
    using p by (simp add: nth_append)
  finally show "concat (map unpackByte (packBitsToString bs)) ! p =
     (bs @ replicate (8 * ((length bs + 7) div 8) - length bs) False) ! p" .
qed

subsection \<open>Request codec\<close>

lemma uint_hi_byte:
  assumes "0 \<le> v" and "v \<le> 65535"
  shows "uint (word_of_int (v div 256) :: byte) = v div 256"
proof -
  have "0 \<le> v div 256" and "v div 256 < 256" using assms by auto
  then show ?thesis by (simp add: uint_word_of_int take_bit_eq_mod)
qed

lemma uint_lo_byte: "uint (word_of_int (v mod 256) :: byte) = v mod 256"
  by (simp add: uint_word_of_int take_bit_eq_mod)

lemma unpack_pack_H:
  assumes "0 \<le> a" and "a \<le> 65535" and "0 \<le> c" and "c \<le> 65535"
  shows "struct_unpack_HH
           [word_of_int (a div 256), word_of_int (a mod 256),
            word_of_int (c div 256), word_of_int (c mod 256)] = Inr (a, c)"
  using assms by (simp add: uint_hi_byte uint_lo_byte)

text \<open>
  Claim C5. For every address in [0, 65535] and count in [1, 65535], the request's
  \<open>encode\<close> returns exactly four bytes, the address big-endian and then the count
  big-endian, and \<open>decode\<close> of these bytes, on any request object, sets address and
  count to the encoded values; on the encoded request itself it gives the request back.
\<close>

theorem request_encode_decode:
  assumes "0 \<le> address r" and "address r \<le> 65535"
    and "1 \<le> count r" and "count r \<le> 65535"
  shows "\<exists>data. ReadBitsRequestBase_encode r = Inr data
           \<and> length data = 4
           \<and> data = [word_of_int (address r div 256), word_of_int (address r mod 256),
                     word_of_int (count r div 256), word_of_int (count r mod 256)]
           \<and> uint (data ! 0) * 256 + uint (data ! 1) = address r
           \<and> uint (data ! 2) * 256 + uint (data ! 3) = count r
           \<and> ReadBitsRequestBase_decode r0 data = Inr (set_fields r0 (address r) (count r))
           \<and> ReadBitsRequestBase_decode r data = Inr r"
proof -
  have c0: "0 \<le> count r" using assms by simp
  have sf: "set_fields r (address r) (count r) = r" by (cases r) simp_all
  show ?thesis using assms c0 sf unpack_pack_H [OF assms(1,2) c0 assms(4)]
    by (simp add: ReadBitsRequestBase_encode_def struct_pack_HH_def pack_H_def
          ReadBitsRequestBase_decode_def uint_hi_byte uint_lo_byte)
qed

theorem request_encode_decode_witness:
  "ReadBitsRequestBase_encode (ReadCoilsRequest 4660 2000) = Inr [18, 52, 7, 208]
   \<and> ReadBitsRequestBase_decode (ReadDiscreteInputsRequest 0 0) [18, 52, 7, 208]
        = Inr (ReadDiscreteInputsRequest 4660 2000)
   \<and> ReadBitsRequestBase_decode (ReadCoilsRequest 4660 2000) [18, 52, 7, 208]
        = Inr (ReadCoilsRequest 4660 2000)"
  using request_encode_decode [of "ReadCoilsRequest 4660 2000" "ReadDiscreteInputsRequest 0 0"]
  by simp

text \<open>
  Claim C6. The request's \<open>decode\<close> fails, with \<open>struct.error\<close>, if and only if its
  input is not exactly four bytes long. On four bytes it succeeds whatever they hold and
  stores the two big-endian values unchecked: address 65535 with count 0, and count 65535,
  are decoded like any other.
\<close>

theorem request_decode_frame_error:
  "((ReadBitsRequestBase_decode r data = Inl struct_error) = (length data \<noteq> 4))
   \<and> ((\<exists>e. ReadBitsRequestBase_decode r data = Inl e) = (length data \<noteq> 4))
   \<and> ((\<exists>r'. ReadBitsRequestBase_decode r data = Inr r') = (length data = 4))
   \<and> ReadBitsRequestBase_decode r [b0, b1, b2, b3]
        = Inr (set_fields r (uint b0 * 256 + uint b1) (uint b2 * 256 + uint b3))
   \<and> ReadBitsRequestBase_decode r [255, 255, 0, 0] = Inr (set_fields r 65535 0)
   \<and> ReadBitsRequestBase_decode r [0, 0, 255, 255] = Inr (set_fields r 0 65535)"
proof -
  have "(\<exists>e. struct_unpack_HH data = Inl e) = (length data \<noteq> 4)"
       "(struct_unpack_HH data = Inl struct_error) = (length data \<noteq> 4)"
    by (induction data rule: struct_unpack_HH.induct) simp_all
  then show ?thesis
    by (auto simp add: ReadBitsRequestBase_decode_def split: sum.splits)
qed

text \<open>
  Claim C9. A \<open>ReadCoilsRequest\<close> and a \<open>ReadDiscreteInputsRequest\<close> with the same
  address and count encode to the same result, which is a body of four bytes exactly when
  both fields are unsigned 16-bit values; the two requests hold the same fields and differ
  in their function code, 1 and 2.
\<close>

theorem request_encode_same_body:
  "ReadBitsRequestBase_encode (ReadCoilsRequest a c)
     = ReadBitsRequestBase_encode (ReadDiscreteInputsRequest a c)
   \<and> ((\<exists>data. ReadBitsRequestBase_encode (ReadCoilsRequest a c) = Inr data \<and> length data = 4)
       = (0 \<le> a \<and> a \<le> 65535 \<and> 0 \<le> c \<and> c \<le> 65535))
   \<and> function_code (ReadCoilsRequest a c) = 1
   \<and> function_code (ReadDiscreteInputsRequest a c) = 2
   \<and> address (ReadCoilsRequest a c) = address (ReadDiscreteInputsRequest a c)
   \<and> count (ReadCoilsRequest a c) = count (ReadDiscreteInputsRequest a c)"
  by (auto simp add: ReadBitsRequestBase_encode_def struct_pack_HH_def pack_H_def)

subsection \<open>Response codec\<close>

lemma encode_Inr:
  assumes "length (bits r) \<le> 2040"
  shows "ReadBitsResponseBase_encode r =
           Inr (of_nat ((length (bits r) + 7) div 8) # packBitsToString (bits r))"
proof -
  have "(length (bits r) + 7) div 8 < 256" using assms by simp
  then show ?thesis
    by (simp add: ReadBitsResponseBase_encode_def chr_def length_packBitsToString Let_def)
qed

lemma unat_byte_count:
  assumes "length bs \<le> 2040"
  shows "unat (of_nat ((length bs + 7) div 8) :: byte) = (length bs + 7) div 8"
proof -
  have "(length bs + 7) div 8 < 256" using assms by simp
  then show ?thesis by (simp add: unat_of_nat)
qed

text \<open>
  Claim C7. For a response holding between 1 and 2000 bits, \<open>encode\<close> succeeds and
  \<open>decode\<close> of its result, on any response object, succeeds with a bit list whose first
  \<open>count\<close> elements are the encoded bits. The decoded list is the encoded one followed
  by the zero padding bits of the last byte, which \<open>decode\<close> does not remove.
\<close>

theorem response_encode_decode:
  assumes "1 \<le> length (bits r)" and "length (bits r) \<le> 2000"
  shows "\<exists>data r'. ReadBitsResponseBase_encode r = Inr data
           \<and> ReadBitsResponseBase_decode r0 data = Inr r'
           \<and> take (length (bits r)) (bits r') = bits r
           \<and> bits r' = bits r @
                replicate (8 * ((length (bits r) + 7) div 8) - length (bits r)) False"
proof -
  let ?bs = "bits r"
  let ?ret = "packBitsToString ?bs"
  let ?n = "(length ?bs + 7) div 8"
  have le: "length ?bs \<le> 2040" using assms by simp
  have enc: "ReadBitsResponseBase_encode r = Inr (of_nat ?n # ?ret)"
    by (rule encode_Inr [OF le])
  have dec: "ReadBitsResponseBase_decode r0 (of_nat ?n # ?ret) =
        Inr (set_bits r0 (?bs @ replicate (8 * ?n - length ?bs) False))"
    by (simp add: ReadBitsResponseBase_decode_def unpackBitsFromString_def
          unat_byte_count [OF le] length_packBitsToString unpack_pack)
  have b: "bits (set_bits r0 v) = v" for v by (cases r0) simp_all
  show ?thesis using enc dec b by simp
qed

theorem response_encode_decode_witness:
  "ReadBitsResponseBase_encode (ReadCoilsResponse [True, False, True]) = Inr [1, 5]
   \<and> ReadBitsResponseBase_decode (ReadCoilsResponse []) [1, 5]
       = Inr (ReadCoilsResponse [True, False, True, False, False, False, False, False])
   \<and> take 3 [True, False, True, False, False, False, False, False] = [True, False, True]"
proof -
  have e: "ReadBitsResponseBase_encode (ReadCoilsResponse [True, False, True]) = Inr [1, 5]"
    by (simp add: ReadBitsResponseBase_encode_def packBitsToString_def chr_def)
  from response_encode_decode [of "ReadCoilsResponse [True, False, True]" "ReadCoilsResponse []"]
  obtain r' where "ReadBitsResponseBase_decode (ReadCoilsResponse []) [1, 5] = Inr r'"
    and "bits r' = [True, False, True] @ replicate 5 False"
    using e by auto
  moreover have "\<exists>v. ReadBitsResponseBase_decode (ReadCoilsResponse []) [1, 5]
                     = Inr (ReadCoilsResponse v)"
    by (simp add: ReadBitsResponseBase_decode_def unpackBitsFromString_def)
  ultimately show ?thesis using e by (auto simp add: numeral_eq_Suc)
qed

text \<open>
  Claim C8. For a response holding between 1 and 2040 bits, \<open>encode\<close> returns a first
  byte equal to \<open>ceil(len(bits) / 8)\<close> followed by that many data bytes; bit
  \<open>p mod 8\<close> of data byte \<open>p div 8\<close> is the bit at position \<open>p\<close>, and it is zero for
  every position past the last bit. The bits true, false, true encode as byte count 1 and
  one data byte of value 5.
\<close>

theorem response_encode_layout:
  assumes "1 \<le> length (bits r)" and "length (bits r) \<le> 2040"
  shows "\<exists>n data. ReadBitsResponseBase_encode r = Inr (n # data)
           \<and> unat n = (length (bits r) + 7) div 8
           \<and> length data = (length (bits r) + 7) div 8
           \<and> (\<forall>p < 8 * length data.
                 bit (data ! (p div 8)) (p mod 8) = (p < length (bits r) \<and> bits r ! p))"
proof -
  let ?bs = "bits r"
  let ?ret = "packBitsToString ?bs"
  let ?n = "(length ?bs + 7) div 8"
  have enc: "ReadBitsResponseBase_encode r = Inr (of_nat ?n # ?ret)"
    by (rule encode_Inr [OF assms(2)])
  have "\<forall>p < 8 * length ?ret.
          bit (?ret ! (p div 8)) (p mod 8) = (p < length ?bs \<and> ?bs ! p)"
    by (simp add: length_packBitsToString bit_packBitsToString)
  then show ?thesis using enc unat_byte_count [OF assms(2)]
    by (simp add: length_packBitsToString)
qed

theorem response_encode_layout_witness:
  "ReadBitsResponseBase_encode (ReadCoilsResponse [True, False, True]) = Inr [1, 5]
   \<and> (\<exists>n data. ReadBitsResponseBase_encode (ReadCoilsResponse [True, False, True])
         = Inr (n # data) \<and> unat n = 1 \<and> length data = 1
         \<and> bit (data ! 0) 0 \<and> \<not> bit (data ! 0) 1 \<and> bit (data ! 0) 2 \<and> \<not> bit (data ! 0) 7)"
proof -
  let ?r = "ReadCoilsResponse [True, False, True]"
  have e: "ReadBitsResponseBase_encode ?r = Inr [1, 5]"
    by (simp add: ReadBitsResponseBase_encode_def packBitsToString_def chr_def)
  have "\<exists>n data. ReadBitsResponseBase_encode ?r = Inr (n # data)
           \<and> unat n = (length (bits ?r) + 7) div 8
           \<and> length data = (length (bits ?r) + 7) div 8
           \<and> (\<forall>p < 8 * length data.
                 bit (data ! (p div 8)) (p mod 8) = (p < length (bits ?r) \<and> bits ?r ! p))"
    by (rule response_encode_layout) simp_all
  then obtain n data where d: "ReadBitsResponseBase_encode ?r = Inr (n # data)"
    and n: "unat n = (length (bits ?r) + 7) div 8"
    and l: "length data = (length (bits ?r) + 7) div 8"
    and b: "\<And>p. p < 8 * length data \<Longrightarrow>
              bit (data ! (p div 8)) (p mod 8) = (p < length (bits ?r) \<and> bits ?r ! p)"
    by blast
  from l have l1: "length data = 1" by simp
  from n have n1: "unat n = 1" by simp
  have "bit (data ! 0) 0" using b [of 0] l1 by simp
  moreover have "\<not> bit (data ! 0) 1" using b [of 1] l1 by simp
  moreover have "bit (data ! 0) 2" using b [of 2] l1 by simp
  moreover have "\<not> bit (data ! 0) 7" using b [of 7] l1 by simp
  ultimately show ?thesis using e d n1 l1 by blast
qed

text \<open>
  Claim C10. A response constructed with no values, that is with \<open>None\<close>, holds the
  empty list of bits, for both response classes, and \<open>encode\<close> of it succeeds with the
  single byte 0, the byte count.
\<close>

theorem response_init_none:
  "ReadCoilsResponse_init None = ReadCoilsResponse []
   \<and> ReadDiscreteInputsResponse_init None = ReadDiscreteInputsResponse []
   \<and> bits (ReadCoilsResponse_init None) = []
   \<and> bits (ReadDiscreteInputsResponse_init None) = []
   \<and> ReadBitsResponseBase_encode (ReadCoilsResponse_init None) = Inr [0]
   \<and> ReadBitsResponseBase_encode (ReadDiscreteInputsResponse_init None) = Inr [0]"
  by (simp add: ReadCoilsResponse_init_def ReadDiscreteInputsResponse_init_def
        ReadBitsResponseBase_init_def ReadBitsResponseBase_encode_def packBitsToString_def
        chr_def)

subsection \<open>Execution\<close>

text \<open>
  Claim C1. For every request, context and store, \<open>execute\<close> returns an IllegalValue
  exception response exactly when the count is outside [1, 2000]; exactly then it has
  made no call into the context and leaves the store as it was. Count 0 and count 2001
  give IllegalValue; with count 2000 the first thing \<open>execute\<close> does is call
  \<open>validate\<close>.
\<close>

theorem execute_illegal_value_iff:
  "((\<exists>fc. fst (execute r ctx s) = Inl (ExceptionResponse fc IllegalValue))
      = (count r < 1 \<or> 2000 < count r))
   \<and> ((execute r ctx s = (Inl (doException (function_code r) IllegalValue), [], s))
      = (count r < 1 \<or> 2000 < count r))
   \<and> ((fst (snd (execute r ctx s)) = []) = (count r < 1 \<or> 2000 < count r))
   \<and> execute (ReadCoilsRequest a 0) ctx s = (Inl (ExceptionResponse 129 IllegalValue), [], s)
   \<and> execute (ReadDiscreteInputsRequest a 0) ctx s
        = (Inl (ExceptionResponse 130 IllegalValue), [], s)
   \<and> execute (ReadCoilsRequest a 2001) ctx s
        = (Inl (ExceptionResponse 129 IllegalValue), [], s)
   \<and> execute (ReadDiscreteInputsRequest a 2001) ctx s
        = (Inl (ExceptionResponse 130 IllegalValue), [], s)
   \<and> hd (fst (snd (execute (ReadCoilsRequest a 2000) ctx s))) = Call_validate 1 a 2000
   \<and> hd (fst (snd (execute (ReadDiscreteInputsRequest a 2000) ctx s)))
        = Call_validate 2 a 2000"
  by (cases r) (auto simp add: doException_def split: prod.splits)

text \<open>
  Claim C2. For a request with count in [1, 2000], if the context's \<open>validate\<close> returns
  false then \<open>execute\<close> returns an IllegalAddress exception response, the only call
  made is the one to \<open>validate\<close>, and the outcome is the same whatever \<open>getValues\<close>
  the context has: it is never invoked.
\<close>

theorem execute_illegal_address:
  assumes "1 \<le> count r" and "count r \<le> 2000"
    and "\<not> fst (validate ctx (function_code r) (address r) (count r) s)"
  shows "execute r ctx s =
           (Inl (doException (function_code r) IllegalAddress),
            [Call_validate (function_code r) (address r) (count r)],
            snd (validate ctx (function_code r) (address r) (count r) s))
         \<and> (\<forall>g. execute r (ctx\<lparr>getValues := g\<rparr>) s = execute r ctx s)"
  using assms by (cases r) (auto split: prod.splits)

theorem execute_illegal_address_witness:
  "execute (ReadCoilsRequest 7 2000) rejecting 0 =
     (Inl (ExceptionResponse 129 IllegalAddress), [Call_validate 1 7 2000], 1)
   \<and> (\<forall>g. execute (ReadCoilsRequest 7 2000) (rejecting\<lparr>getValues := g\<rparr>) 0
          = execute (ReadCoilsRequest 7 2000) rejecting 0)"
  using execute_illegal_address [of "ReadCoilsRequest 7 2000" rejecting 0]
  by (simp add: rejecting_def doException_def)

text \<open>
  Claim C3. For a request with count in [1, 2000], if \<open>validate\<close> returns true and
  \<open>getValues\<close>, called on the store \<open>validate\<close> left, returns a sequence, then
  \<open>execute\<close> returns a response, not an exception, whose bits are exactly that sequence
  and whose function code is the request's: 1 for coils, 2 for discrete inputs.
\<close>

theorem execute_success:
  assumes "1 \<le> count r" and "count r \<le> 2000"
    and "validate ctx (function_code r) (address r) (count r) s = (True, s1)"
    and "getValues ctx (function_code r) (address r) (count r) s1 = (Some vs, s2)"
  shows "\<exists>resp. execute r ctx s =
            (Inr resp,
             [Call_validate (function_code r) (address r) (count r),
              Call_getValues (function_code r) (address r) (count r)], s2)
          \<and> bits resp = vs
          \<and> response_function_code resp = function_code r
          \<and> function_code r = (case r of ReadCoilsRequest _ _ \<Rightarrow> 1
                                 | ReadDiscreteInputsRequest _ _ \<Rightarrow> 2)"
  using assms
  by (cases r)
     (simp_all add: ReadCoilsResponse_init_def ReadDiscreteInputsResponse_init_def
        ReadBitsResponseBase_init_def)

theorem execute_success_witness:
  "\<exists>resp. execute (ReadCoilsRequest 10 5) coil_store coils_10_to_14 =
            (Inr resp, [Call_validate 1 10 5, Call_getValues 1 10 5], coils_10_to_14)
          \<and> bits resp = [True, False, True, True, False]
          \<and> response_function_code resp = 1
          \<and> ReadBitsResponseBase_encode resp = Inr [1, 13]"
proof -
  have v: "validate coil_store 1 10 5 coils_10_to_14 = (True, coils_10_to_14)"
    by (simp add: coil_store_def coils_10_to_14_def)
  have g: "getValues coil_store 1 10 5 coils_10_to_14 =
             (Some [True, False, True, True, False], coils_10_to_14)"
    by (simp add: coil_store_def coils_10_to_14_def)
  have e: "ReadBitsResponseBase_encode (ReadCoilsResponse [True, False, True, True, False])
             = Inr [1, 13]"
    by (simp add: ReadBitsResponseBase_encode_def packBitsToString_def chr_def)
  from execute_success [of "ReadCoilsRequest 10 5" coil_store coils_10_to_14
      coils_10_to_14 "[True, False, True, True, False]" coils_10_to_14]
  show ?thesis using v g e
    by (simp add: ReadCoilsResponse_init_def ReadBitsResponseBase_init_def)
qed

text \<open>
  Claim C4. If \<open>getValues\<close>, called with the request's function code, address and
  count, always returns a sequence of exactly \<open>count\<close> values, then every response that
  \<open>execute\<close> returns holds exactly \<open>count\<close> bits.
\<close>

theorem execute_length:
  assumes contract:
    "\<And>s'. \<exists>vs. fst (getValues ctx (function_code r) (address r) (count r) s') = Some vs
              \<and> int (length vs) = count r"
    and ok: "fst (execute r ctx s) = Inr resp"
  shows "int (length (bits resp)) = count r"
proof -
  obtain okv s1 where v: "validate ctx (function_code r) (address r) (count r) s = (okv, s1)"
    by (cases "validate ctx (function_code r) (address r) (count r) s")
  obtain vs where g: "fst (getValues ctx (function_code r) (address r) (count r) s1) = Some vs"
    and l: "int (length vs) = count r"
    using contract [of s1] by blast
  show ?thesis using ok v g l
    by (cases r)
       (auto simp add: ReadCoilsResponse_init_def ReadDiscreteInputsResponse_init_def
          ReadBitsResponseBase_init_def split: if_splits prod.splits)
qed

theorem execute_length_witness:
  "fst (execute (ReadDiscreteInputsRequest 3 4) uniform_store True)
     = Inr (ReadDiscreteInputsResponse [True, True, True, True])
   \<and> int (length (bits (ReadDiscreteInputsResponse [True, True, True, True]))) = 4"
proof -
  have e: "fst (execute (ReadDiscreteInputsRequest 3 4) uniform_store True)
             = Inr (ReadDiscreteInputsResponse [True, True, True, True])"
    by (simp add: uniform_store_def ReadDiscreteInputsResponse_init_def
          ReadBitsResponseBase_init_def numeral_eq_Suc)
  have "int (length (bits (ReadDiscreteInputsResponse [True, True, True, True]))) =
        count (ReadDiscreteInputsRequest 3 4)"
    by (rule execute_length [OF _ e]) (simp add: uniform_store_def)
  with e show ?thesis by simp
qed

end
